theory Spec2Isabelle
  imports Complex_Main "HOL-Library.Product_Lexorder"
begin

section \<open>Python values used by \<^verbatim>\<open>main.py\<close>\<close>

text \<open>
  Rates are JSON numbers, which Python holds as binary floating-point numbers; a rate is
  modelled by the rational value of that number.  The two floating-point operations the
  program applies to rates, the division \<^verbatim>\<open>n / m\<close> and \<^verbatim>\<open>round(x, 4)\<close>, are parameters
  \<open>truediv\<close> and \<open>round_float\<close> of the model: nothing is assumed about the way they round.
  Dates travel through the program as strings (\<^verbatim>\<open>effectiveDate\<close>, the \<^verbatim>\<open>Date\<close>
  column).
\<close>

type_synonym rate = rat

datatype error =
    ConnectionError
  | HTTPError nat
  | JSONDecodeError
  | KeyError string
  | ZeroDivisionError
  | ValueError string
  | IOError
  | Exception string

subsection \<open>Dictionaries (insertion ordered)\<close>

text \<open>
  A Python \<^verbatim>\<open>dict\<close> keeps its keys in insertion order; \<^verbatim>\<open>list(d.keys())\<close> and
  \<^verbatim>\<open>list(d.values())\<close> read that order.  Storing under a key that is present replaces the
  value in place.
\<close>

type_synonym ('k, 'v) dict = "('k \<times> 'v) list"

fun dict_set :: "('k, 'v) dict \<Rightarrow> 'k \<Rightarrow> 'v \<Rightarrow> ('k, 'v) dict" where
  "dict_set [] k v = [(k, v)]"
| "dict_set ((k', v') # d) k v =
     (if k' = k then (k, v) # d else (k', v') # dict_set d k v)"

definition dict_keys :: "('k, 'v) dict \<Rightarrow> 'k list" where
  "dict_keys d = map fst d"

definition dict_values :: "('k, 'v) dict \<Rightarrow> 'v list" where
  "dict_values d = map snd d"

definition dict_get :: "(string, 'v) dict \<Rightarrow> string \<Rightarrow> error + 'v" where
  "dict_get d k = (case map_of d k of None \<Rightarrow> Inl (KeyError k) | Some v \<Rightarrow> Inr v)"

section \<open>\<^verbatim>\<open>fetch_currency_data\<close>\<close>

record entry =
  effectiveDate :: "string option"
  mid :: "rate option"

text \<open>
  What \<^verbatim>\<open>requests.get\<close> hands back.  \<open>json\<close> is \<open>None\<close> when the body does not decode,
  \<open>Some None\<close> when the decoded object has no \<^verbatim>\<open>rates\<close> key.
\<close>

record response =
  status_code :: nat
  resp_text :: string
  json :: "entry list option option"

datatype http_result = NetworkFailure | Response response

datatype printed =
    HttpErrorOccurred string nat
  | ErrorOccurred string error
  | Updated string
  | Saved string
  | SaveError string error

definition url_for :: "string \<Rightarrow> string \<Rightarrow> string \<Rightarrow> string" where
  "url_for currency_code start_date end_date =
     ''https://api.nbp.pl/api/exchangerates/rates/A/'' @ currency_code @ ''/'' @ start_date
       @ ''/'' @ end_date @ ''/?format=json''"

fun contains :: "string \<Rightarrow> string \<Rightarrow> bool" where
  "contains [] sub = (sub = [])"
| "contains (c # cs) sub = (take (length sub) (c # cs) = sub \<or> contains cs sub)"

definition data_not_found :: string where
  "data_not_found = CHR 0x0A # ''Data not found for the specified time range.''"

definition limit_exceeded :: string where
  "limit_exceeded = CHR 0x0A # ''Request limit exceeded. Please reduce the time range.''"

definition no_rate_data :: "string \<Rightarrow> string" where
  "no_rate_data currency_code = CHR 0x0A # ''No exchange rate data found for '' @ currency_code"

text \<open>\<^verbatim>\<open>response.raise_for_status()\<close> raises for every 4xx and 5xx status.\<close>

definition raise_for_status :: "response \<Rightarrow> error + unit" where
  "raise_for_status r =
     (if 400 \<le> status_code r \<and> status_code r < 600 then Inl (HTTPError (status_code r))
      else Inr ())"

text \<open>The body of the \<^verbatim>\<open>try\<close> block, lines 28 to 32.\<close>

definition check_response :: "response \<Rightarrow> error + unit" where
  "check_response r =
     (case raise_for_status r of
        Inl e \<Rightarrow> Inl e
      | Inr _ \<Rightarrow>
          if status_code r = 404 then Inl (Exception data_not_found)
          else if status_code r = 400 \<and> contains (resp_text r) ''Przekroczony limit''
          then Inl (Exception limit_exceeded)
          else Inr ())"

text \<open>The dict comprehension of line 45, entry by entry.\<close>

fun rates_dict :: "(string, rate) dict \<Rightarrow> entry list \<Rightarrow> error + (string, rate) dict" where
  "rates_dict acc [] = Inr acc"
| "rates_dict acc (e # es) =
     (case effectiveDate e of
        None \<Rightarrow> Inl (KeyError ''effectiveDate'')
      | Some d \<Rightarrow>
          (case mid e of
             None \<Rightarrow> Inl (KeyError ''mid'')
           | Some m \<Rightarrow> rates_dict (dict_set acc d m) es))"

text \<open>
  The function returns what it printed together with its result; \<open>Inl\<close> is the exception
  that leaves the function.
\<close>

definition fetch_currency_data ::
  "(string \<Rightarrow> http_result) \<Rightarrow> string \<Rightarrow> string \<Rightarrow> string
     \<Rightarrow> printed list \<times> (error + (string, rate) dict)" where
  "fetch_currency_data get currency_code start_date end_date =
     (case get (url_for currency_code start_date end_date) of
        NetworkFailure \<Rightarrow> ([], Inl ConnectionError)
      | Response r \<Rightarrow>
          (case check_response r of
             Inl (HTTPError c) \<Rightarrow> ([HttpErrorOccurred currency_code (status_code r)], Inl (HTTPError c))
           | Inl err \<Rightarrow> ([ErrorOccurred currency_code err], Inl err)
           | Inr _ \<Rightarrow>
               (case json r of
                  None \<Rightarrow> ([], Inl JSONDecodeError)
                | Some data \<Rightarrow>
                    (let rates = (case data of None \<Rightarrow> [] | Some rs \<Rightarrow> rs)
                     in if rates = [] then ([], Inl (Exception (no_rate_data currency_code)))
                        else ([], rates_dict [] rates)))))"

section \<open>Derived ratios and the assembled frame: \<^verbatim>\<open>process_currency_data\<close>\<close>

text \<open>
  Lines 123 and 124 are the same comprehension
  \<^verbatim>\<open>{date: round(num[date] / den[date], 4) for date in num.keys()}\<close>
  on two pairs of mappings.  Each step reads \<^verbatim>\<open>num[date]\<close>, then \<^verbatim>\<open>den[date]\<close>
  (a \<^verbatim>\<open>KeyError\<close> when the date is missing), then divides (a \<^verbatim>\<open>ZeroDivisionError\<close> when
  the denominator is zero) and rounds the quotient.
\<close>

fun derive_loop ::
  "(rate \<Rightarrow> rate \<Rightarrow> rate) \<Rightarrow> (rate \<Rightarrow> rate) \<Rightarrow> (string, rate) dict \<Rightarrow> string list
     \<Rightarrow> (string, rate) dict \<Rightarrow> (string, rate) dict \<Rightarrow> error + (string, rate) dict" where
  "derive_loop truediv round_float acc [] num den = Inr acc"
| "derive_loop truediv round_float acc (date # ds) num den =
     (case dict_get num date of
        Inl e \<Rightarrow> Inl e
      | Inr n \<Rightarrow>
          (case dict_get den date of
             Inl e \<Rightarrow> Inl e
           | Inr m \<Rightarrow>
               if m = 0 then Inl ZeroDivisionError
               else derive_loop truediv round_float
                      (dict_set acc date (round_float (truediv n m))) ds num den))"

definition derive ::
  "(rate \<Rightarrow> rate \<Rightarrow> rate) \<Rightarrow> (rate \<Rightarrow> rate) \<Rightarrow> (string, rate) dict \<Rightarrow> (string, rate) dict
     \<Rightarrow> error + (string, rate) dict" where
  "derive truediv round_float num den = derive_loop truediv round_float [] (dict_keys num) num den"

text \<open>
  A data frame: the \<^verbatim>\<open>Date\<close> column, kept as the strings the program stores in it, and the
  named series columns.  A cell is \<open>None\<close> where pandas holds NaN.
\<close>

record row =
  Date :: string
  cells :: "rate option list"

record DataFrame =
  columns :: "string list"
  rows :: "row list"

text \<open>
  \<^verbatim>\<open>pd.DataFrame({'Date': [...], name: [...], ...})\<close>: the arrays must all have one length.
\<close>

definition arrays_length_error :: string where
  "arrays_length_error = ''All arrays must be of the same length''"

definition data_frame_of :: "string list \<Rightarrow> (string \<times> rate list) list \<Rightarrow> error + DataFrame" where
  "data_frame_of dates series =
     (if list_all (\<lambda>s. length (snd s) = length dates) series
      then Inr \<lparr>columns = map fst series,
                rows = map (\<lambda>i. \<lparr>Date = dates ! i, cells = map (\<lambda>s. Some (snd s ! i)) series\<rparr>)
                         [0..<length dates]\<rparr>
      else Inl (ValueError arrays_length_error))"

text \<open>Lines 123 to 137, from the three fetched mappings on.\<close>

definition process_rates ::
  "(rate \<Rightarrow> rate \<Rightarrow> rate) \<Rightarrow> (rate \<Rightarrow> rate) \<Rightarrow> (string, rate) dict \<Rightarrow> (string, rate) dict
     \<Rightarrow> (string, rate) dict \<Rightarrow> error + DataFrame" where
  "process_rates truediv round_float eur_rates usd_rates chf_rates =
     (case derive truediv round_float eur_rates usd_rates of
        Inl e \<Rightarrow> Inl e
      | Inr eur_usd_rates \<Rightarrow>
          (case derive truediv round_float chf_rates usd_rates of
             Inl e \<Rightarrow> Inl e
           | Inr chf_usd_rates \<Rightarrow>
               data_frame_of (dict_keys eur_rates)
                 [(''EUR/PLN'', dict_values eur_rates),
                  (''USD/PLN'', dict_values usd_rates),
                  (''CHF/PLN'', dict_values chf_rates),
                  (''EUR/USD'', dict_values eur_usd_rates),
                  (''CHF/USD'', dict_values chf_usd_rates)]))"

text \<open>
  The whole function.  The date range of \<^verbatim>\<open>get_default_date_range\<close> comes from the clock and
  is a parameter; a failed fetch leaves the function at once.
\<close>

definition process_currency_data ::
  "(rate \<Rightarrow> rate \<Rightarrow> rate) \<Rightarrow> (rate \<Rightarrow> rate) \<Rightarrow> (string \<Rightarrow> http_result) \<Rightarrow> string \<Rightarrow> string
     \<Rightarrow> printed list \<times> (error + DataFrame)" where
  "process_currency_data truediv round_float get start_date end_date =
     (case fetch_currency_data get ''EUR'' start_date end_date of
        (p1, Inl e) \<Rightarrow> (p1, Inl e)
      | (p1, Inr eur_rates) \<Rightarrow>
          (case fetch_currency_data get ''USD'' start_date end_date of
             (p2, Inl e) \<Rightarrow> (p1 @ p2, Inl e)
           | (p2, Inr usd_rates) \<Rightarrow>
               (case fetch_currency_data get ''CHF'' start_date end_date of
                  (p3, Inl e) \<Rightarrow> (p1 @ p2 @ p3, Inl e)
                | (p3, Inr chf_rates) \<Rightarrow>
                    (p1 @ p2 @ p3, process_rates truediv round_float eur_rates usd_rates chf_rates))))"

section \<open>\<^verbatim>\<open>save_to_csv\<close>\<close>

definition ALL_CURRENCY_FILE :: string where
  "ALL_CURRENCY_FILE = ''all_currency_data.csv''"

definition SELECTED_CURRENCY_FILE :: string where
  "SELECTED_CURRENCY_FILE = ''selected_currency_data.csv''"

text \<open>
  The files the program sees: a path holds nothing, a table, or something
  \<^verbatim>\<open>pd.read_csv\<close> cannot read.
\<close>

datatype stored = Unreadable | Csv DataFrame

type_synonym storage = "string \<Rightarrow> stored option"

definition read_csv :: "stored \<Rightarrow> error + DataFrame" where
  "read_csv f = (case f of Unreadable \<Rightarrow> Inl IOError | Csv df \<Rightarrow> Inr df)"

subsection \<open>Dates of a column\<close>

text \<open>
  \<^verbatim>\<open>pd.to_datetime\<close> is a parameter \<open>to_datetime\<close> of the model: on one string it raises,
  or yields NaT (\<open>None\<close>), or a point of a linearly ordered time line.  On a column it
  converts the strings in order and raises at the first that does not convert.
\<close>

fun series_to_datetime ::
  "(string \<Rightarrow> error + 'd option) \<Rightarrow> string list \<Rightarrow> error + 'd option list" where
  "series_to_datetime to_datetime [] = Inr []"
| "series_to_datetime to_datetime (s # ss) =
     (case to_datetime s of
        Inl e \<Rightarrow> Inl e
      | Inr d \<Rightarrow>
          (case series_to_datetime to_datetime ss of
             Inl e \<Rightarrow> Inl e
           | Inr ds \<Rightarrow> Inr (d # ds)))"

text \<open>\<^verbatim>\<open>.max()\<close> skips NaT and is NaT on a column with no date at all.\<close>

fun series_max :: "('d::linorder) option list \<Rightarrow> 'd option" where
  "series_max [] = None"
| "series_max (None # xs) = series_max xs"
| "series_max (Some d # xs) =
     (case series_max xs of None \<Rightarrow> Some d | Some m \<Rightarrow> Some (max d m))"

text \<open>One comparison of the mask \<^verbatim>\<open>dates > latest\<close>: false whenever a side is NaT.\<close>

fun later_than :: "('d::linorder) option \<Rightarrow> 'd option \<Rightarrow> bool" where
  "later_than (Some d) (Some m) = (m < d)"
| "later_than _ _ = False"

text \<open>\<^verbatim>\<open>data_frame[mask]\<close>: the rows whose mask entry is true.\<close>

definition select_rows :: "DataFrame \<Rightarrow> bool list \<Rightarrow> DataFrame" where
  "select_rows df flags = df\<lparr>rows := map fst (filter snd (zip (rows df) flags))\<rparr>"

subsection \<open>\<^verbatim>\<open>pd.concat\<close> and \<^verbatim>\<open>drop_duplicates\<close>\<close>

text \<open>
  \<^verbatim>\<open>pd.concat([a, b])\<close> keeps the columns of \<open>a\<close>, adds the columns only \<open>b\<close> has, and
  stacks the rows, a cell being NaN where a row's frame had no such column.
\<close>

definition cell_at :: "string list \<Rightarrow> row \<Rightarrow> string \<Rightarrow> rate option" where
  "cell_at cols r c = (case map_of (zip cols (cells r)) c of None \<Rightarrow> None | Some v \<Rightarrow> v)"

definition reindex :: "string list \<Rightarrow> string list \<Rightarrow> row \<Rightarrow> row" where
  "reindex cols new_cols r = r\<lparr>cells := map (cell_at cols r) new_cols\<rparr>"

definition concat_frames :: "DataFrame \<Rightarrow> DataFrame \<Rightarrow> DataFrame" where
  "concat_frames a b =
     (let cols = columns a @ filter (\<lambda>c. c \<notin> set (columns a)) (columns b)
      in \<lparr>columns = cols,
          rows = map (reindex (columns a) cols) (rows a) @ map (reindex (columns b) cols) (rows b)\<rparr>)"

text \<open>
  \<^verbatim>\<open>drop_duplicates(subset=['Date'])\<close> keeps, for each \<^verbatim>\<open>Date\<close> string, the first row that
  carries it; \<open>seen\<close> are the strings met so far.
\<close>

fun drop_dups :: "string list \<Rightarrow> row list \<Rightarrow> row list" where
  "drop_dups seen [] = []"
| "drop_dups seen (r # rs) =
     (if Date r \<in> set seen then drop_dups seen rs else r # drop_dups (Date r # seen) rs)"

definition drop_duplicates :: "DataFrame \<Rightarrow> DataFrame" where
  "drop_duplicates df = df\<lparr>rows := drop_dups [] (rows df)\<rparr>"

subsection \<open>The function\<close>

text \<open>
  The body of the \<^verbatim>\<open>try\<close> block for \<^verbatim>\<open>ALL_CURRENCY_FILE\<close> (lines 62 to 74): the frame to
  write and the line to print, or the exception raised before anything is written.
\<close>

definition merge_history ::
  "(string \<Rightarrow> error + ('d::linorder) option) \<Rightarrow> DataFrame \<Rightarrow> string \<Rightarrow> stored option
     \<Rightarrow> error + DataFrame \<times> printed" where
  "merge_history to_datetime data_frame filename found =
     (case found of
        None \<Rightarrow> Inr (data_frame, Saved filename)
      | Some f \<Rightarrow>
          (case read_csv f of
             Inl e \<Rightarrow> Inl e
           | Inr existing_data \<Rightarrow>
               (case series_to_datetime to_datetime (map Date (rows existing_data)) of
                  Inl e \<Rightarrow> Inl e
                | Inr existing_dates \<Rightarrow>
                    (let latest_date_existing = series_max existing_dates
                     in case series_to_datetime to_datetime (map Date (rows data_frame)) of
                          Inl e \<Rightarrow> Inl e
                        | Inr dates \<Rightarrow>
                            (let new_entries =
                                   select_rows data_frame
                                     (map (\<lambda>d. later_than d latest_date_existing) dates);
                                 updated_data =
                                   drop_duplicates (concat_frames existing_data new_entries)
                             in Inr (updated_data, Updated filename))))))"

text \<open>
  \<^verbatim>\<open>save_to_csv\<close> returns to its caller in every case: \<open>Inr ()\<close> is the normal return, and
  each \<^verbatim>\<open>except Exception\<close> clause turns a failure of its block into a printed line.  A file
  name other than the two constants falls through both branches.
\<close>

definition save_to_csv ::
  "(string \<Rightarrow> error + ('d::linorder) option) \<Rightarrow> DataFrame \<Rightarrow> string \<Rightarrow> storage
     \<Rightarrow> (error + unit) \<times> printed list \<times> storage" where
  "save_to_csv to_datetime data_frame filename fs =
     (if filename = SELECTED_CURRENCY_FILE then
        (case fs filename of
           Some _ \<Rightarrow> (Inr (), [Updated filename], fs(filename \<mapsto> Csv data_frame))
         | None \<Rightarrow> (Inr (), [Saved filename], fs(filename \<mapsto> Csv data_frame)))
      else if filename = ALL_CURRENCY_FILE then
        (case merge_history to_datetime data_frame filename (fs filename) of
           Inl e \<Rightarrow> (Inr (), [SaveError filename e], fs)
         | Inr (written, line) \<Rightarrow> (Inr (), [line], fs(filename \<mapsto> Csv written)))
      else (Inr (), [], fs))"

text \<open>The persisted history after a call, as the next call will read it.\<close>

definition merge :: "(string \<Rightarrow> error + ('d::linorder) option) \<Rightarrow> storage \<Rightarrow> DataFrame \<Rightarrow> storage" where
  "merge to_datetime fs incoming = snd (snd (save_to_csv to_datetime incoming ALL_CURRENCY_FILE fs))"

subsection \<open>Dates written as \<^verbatim>\<open>YYYY-MM-DD\<close>\<close>

text \<open>
  One instance of \<open>to_datetime\<close>, for the format of the stored file: the empty cell is NaT,
  a calendar date in the form \<^verbatim>\<open>YYYY-MM-DD\<close> is the triple (year, month, day), compared
  lexicographically, and anything else raises.
\<close>

definition digit_of :: "char \<Rightarrow> nat option" where
  "digit_of c = (let n = of_char c :: nat in if 48 \<le> n \<and> n \<le> 57 then Some (n - 48) else None)"

fun number_of :: "nat \<Rightarrow> string \<Rightarrow> nat option" where
  "number_of acc [] = Some acc"
| "number_of acc (c # cs) =
     (case digit_of c of None \<Rightarrow> None | Some k \<Rightarrow> number_of (10 * acc + k) cs)"

definition leap_year :: "nat \<Rightarrow> bool" where
  "leap_year y = (if y mod 100 = 0 then y mod 400 = 0 else y mod 4 = 0)"

definition days_in_month :: "nat \<Rightarrow> nat \<Rightarrow> nat" where
  "days_in_month y m =
     (if m = 2 then (if leap_year y then 29 else 28)
      else if m \<in> {4, 6, 9, 11} then 30 else 31)"

definition unparseable :: "string \<Rightarrow> string" where
  "unparseable s = ''Unknown datetime string format, unable to parse: '' @ s"

definition iso_datetime :: "string \<Rightarrow> error + (nat \<times> nat \<times> nat) option" where
  "iso_datetime s =
     (if s = [] then Inr None
      else if length s = 10 \<and> s ! 4 = CHR ''-'' \<and> s ! 7 = CHR ''-'' then
        (case (number_of 0 (take 4 s), number_of 0 (take 2 (drop 5 s)), number_of 0 (drop 8 s)) of
           (Some y, Some m, Some d) \<Rightarrow>
             if 1 \<le> y \<and> 1 \<le> m \<and> m \<le> 12 \<and> 1 \<le> d \<and> d \<le> days_in_month y m
             then Inr (Some (y, m, d))
             else Inl (ValueError (unparseable s))
         | _ \<Rightarrow> Inl (ValueError (unparseable s)))
      else Inl (ValueError (unparseable s)))"

section \<open>Auxiliary notions for the proofs\<close>

text \<open>The entry the comprehension computes for one date that both mappings hold.\<close>

definition ratio_at ::
  "(rate \<Rightarrow> rate \<Rightarrow> rate) \<Rightarrow> (rate \<Rightarrow> rate) \<Rightarrow> (string, rate) dict \<Rightarrow> (string, rate) dict
     \<Rightarrow> string \<Rightarrow> string \<times> rate" where
  "ratio_at truediv round_float num den d =
     (d, round_float (truediv (the (map_of num d)) (the (map_of den d))))"

text \<open>What \<open>to_datetime\<close> makes of one string when it does not raise.\<close>

definition parsed :: "(string \<Rightarrow> error + 'd option) \<Rightarrow> string \<Rightarrow> 'd option" where
  "parsed to_datetime s = (case to_datetime s of Inl _ \<Rightarrow> None | Inr d \<Rightarrow> d)"

text \<open>
  The rows of the incoming frame that pass the mask of line 66, and the frame line 68
  builds from the stored one and from them.
\<close>

definition new_entries :: "(string \<Rightarrow> error + ('d::linorder) option) \<Rightarrow> DataFrame \<Rightarrow> DataFrame \<Rightarrow> row list" where
  "new_entries f E T =
     filter (\<lambda>r. later_than (parsed f (Date r)) (series_max (map (\<lambda>r. parsed f (Date r)) (rows E))))
       (rows T)"

definition merged :: "(string \<Rightarrow> error + ('d::linorder) option) \<Rightarrow> DataFrame \<Rightarrow> DataFrame \<Rightarrow> DataFrame" where
  "merged f E T = drop_duplicates (concat_frames E (T\<lparr>rows := new_entries f E T\<rparr>))"

text \<open>
  A frame whose column names are distinct and whose rows have one cell for each column.
\<close>

definition well_formed :: "DataFrame \<Rightarrow> bool" where
  "well_formed df =
     (distinct (columns df) \<and> list_all (\<lambda>r. length (cells r) = length (columns df)) (rows df))"


text \<open>
  The example of the specification: a history that ends on 2024-03-10, and an incoming
  table with a row for 2024-03-09 and a row for 2024-03-11.
\<close>

definition history_example :: DataFrame where
  "history_example =
     \<lparr>columns = [''EUR/PLN''],
      rows = [\<lparr>Date = ''2024-03-08'', cells = [Some (43 / 10)]\<rparr>,
              \<lparr>Date = ''2024-03-10'', cells = [Some (44 / 10)]\<rparr>]\<rparr>"

definition incoming_example :: DataFrame where
  "incoming_example =
     \<lparr>columns = [''EUR/PLN''],
      rows = [\<lparr>Date = ''2024-03-09'', cells = [Some (41 / 10)]\<rparr>,
              \<lparr>Date = ''2024-03-11'', cells = [Some (45 / 10)]\<rparr>]\<rparr>"

text \<open>
  An incoming table that carries another value for the stored date 2024-03-10, and a
  stored history whose \<^verbatim>\<open>Date\<close> column does not convert.
\<close>

definition conflicting_example :: DataFrame where
  "conflicting_example =
     \<lparr>columns = [''EUR/PLN''],
      rows = [\<lparr>Date = ''2024-03-10'', cells = [Some (99 / 10)]\<rparr>,
              \<lparr>Date = ''2024-03-11'', cells = [Some (45 / 10)]\<rparr>]\<rparr>"

definition corrupt_example :: DataFrame where
  "corrupt_example =
     \<lparr>columns = [''EUR/PLN''],
      rows = [\<lparr>Date = ''not a date'', cells = [Some (43 / 10)]\<rparr>]\<rparr>"





section \<open>Dictionaries and derived ratios\<close>

lemma dict_set_fresh: "k \<notin> set (dict_keys d) \<Longrightarrow> dict_set d k v = d @ [(k, v)]"
  by (induction d) (auto simp: dict_keys_def)

lemma dict_get_Some: "map_of d k = Some v \<Longrightarrow> dict_get d k = Inr v"
  by (simp add: dict_get_def)


lemma map_of_keys: "k \<in> set (dict_keys d) \<Longrightarrow> \<exists>v. map_of d k = Some v"
  by (induction d) (auto simp: dict_keys_def)

lemma map_of_in_keys: "map_of d k = Some v \<Longrightarrow> k \<in> set (dict_keys d)"
  by (auto simp: dict_keys_def dest: map_of_SomeD intro: rev_image_eqI)

lemma derive_loop_ok:
  "distinct ds \<Longrightarrow> set ds \<inter> set (dict_keys acc) = {} \<Longrightarrow>
   \<forall>d \<in> set ds. \<exists>n m. map_of num d = Some n \<and> map_of den d = Some m \<and> m \<noteq> 0 \<Longrightarrow>
   derive_loop truediv round_float acc ds num den = Inr (acc @ map (ratio_at truediv round_float num den) ds)"
proof (induction ds arbitrary: acc)
  case Nil
  then show ?case by simp
next
  case (Cons d ds)
  from Cons.prems(3) obtain n m where nm: "map_of num d = Some n" "map_of den d = Some m" "m \<noteq> 0"
    by auto
  have fresh: "d \<notin> set (dict_keys acc)" using Cons.prems(2) by auto
  let ?acc = "dict_set acc d (round_float (truediv n m))"
  have acc: "?acc = acc @ [ratio_at truediv round_float num den d]"
    using fresh nm by (simp add: dict_set_fresh ratio_at_def)
  have "set ds \<inter> set (dict_keys ?acc) = {}"
    using Cons.prems(1,2) by (auto simp: acc dict_keys_def ratio_at_def)
  then have "derive_loop truediv round_float ?acc ds num den = Inr (?acc @ map (ratio_at truediv round_float num den) ds)"
    using Cons.IH Cons.prems(1,3) by simp
  then show ?case using nm by (simp add: dict_get_Some acc)
qed


lemma derive_loop_zero:
  "\<forall>d \<in> set ds. d \<in> set (dict_keys num) \<and> d \<in> set (dict_keys den) \<Longrightarrow>
   (if \<exists>d \<in> set ds. map_of den d = Some 0 then derive_loop truediv round_float acc ds num den = Inl ZeroDivisionError
    else \<exists>R. derive_loop truediv round_float acc ds num den = Inr R)"
proof (induction ds arbitrary: acc)
  case Nil
  then show ?case by simp
next
  case (Cons d ds)
  obtain n where n: "map_of num d = Some n" using Cons.prems map_of_keys by fastforce
  obtain m where m: "map_of den d = Some m" using Cons.prems map_of_keys by fastforce
  have IH: "if \<exists>d \<in> set ds. map_of den d = Some 0
            then derive_loop truediv round_float (dict_set acc d (round_float (truediv n m))) ds num den = Inl ZeroDivisionError
            else \<exists>R. derive_loop truediv round_float (dict_set acc d (round_float (truediv n m))) ds num den = Inr R"
    using Cons.IH Cons.prems by simp
  show ?case
  proof (cases "m = 0")
    case True
    then show ?thesis using n m by (auto simp: dict_get_Some)
  next
    case False
    then show ?thesis using n m IH by (auto simp: dict_get_Some)
  qed
qed


text \<open>
  Claim C5, as the code has it.  The comprehension runs over the dates of the numerator
  and indexes the denominator with each of them.  When every date of the numerator \<open>N\<close>
  is a date of the denominator \<open>D\<close> with a rate other than zero, \<open>derive\<close> returns a
  mapping with the dates of \<open>N\<close> in their order; that key set is the intersection of
  the two key sets, so a date that only \<open>D\<close> holds never appears, and the value at each
  date is \<open>round(N[d] / D[d], 4)\<close> as the two floating-point operations \<open>truediv\<close> and
  \<open>round_float\<close> compute it, whatever they are.
\<close>

theorem derive_numerator_dates:
  assumes "distinct (dict_keys N)"
    and "\<forall>d \<in> set (dict_keys N). \<exists>m. map_of D d = Some m \<and> m \<noteq> 0"
  shows "\<exists>R. derive truediv round_float N D = Inr R
           \<and> dict_keys R = dict_keys N
           \<and> set (dict_keys R) = set (dict_keys N) \<inter> set (dict_keys D)
           \<and> (\<forall>d n m. map_of N d = Some n \<longrightarrow> map_of D d = Some m
                 \<longrightarrow> map_of R d = Some (round_float (truediv n m)))"
proof -
  let ?R = "map (ratio_at truediv round_float N D) (dict_keys N)"
  have "\<forall>d \<in> set (dict_keys N). \<exists>n m. map_of N d = Some n \<and> map_of D d = Some m \<and> m \<noteq> 0"
    using assms(2) map_of_keys by metis
  then have R: "derive truediv round_float N D = Inr ?R"
    using derive_loop_ok[of "dict_keys N" "[]" N D] assms(1)
    by (simp add: derive_def dict_keys_def)
  have keys: "dict_keys ?R = dict_keys N"
    by (simp add: dict_keys_def ratio_at_def comp_def)
  have sub: "set (dict_keys N) \<subseteq> set (dict_keys D)"
  proof
    fix d assume "d \<in> set (dict_keys N)"
    then obtain m where "map_of D d = Some m" using assms(2) by blast
    then show "d \<in> set (dict_keys D)" by (rule map_of_in_keys)
  qed
  have vals: "map_of ?R d = Some (round_float (truediv n m))"
    if "map_of N d = Some n" "map_of D d = Some m" for d n m
  proof -
    have d: "d \<in> set (dict_keys N)" using that(1) by (rule map_of_in_keys)
    have eq: "?R = map (\<lambda>k. (k, snd (ratio_at truediv round_float N D k))) (dict_keys N)"
      by (simp add: ratio_at_def)
    have "map_of ?R d = Some (snd (ratio_at truediv round_float N D d))"
      unfolding eq map_of_map_restrict using d by simp
    then show ?thesis using that by (simp add: ratio_at_def)
  qed
  have inter: "set (dict_keys ?R) = set (dict_keys N) \<inter> set (dict_keys D)"
    using keys sub by auto
  show ?thesis
  proof (intro exI conjI allI impI)
    show "derive truediv round_float N D = Inr ?R" by (rule R)
    show "dict_keys ?R = dict_keys N" by (rule keys)
    show "set (dict_keys ?R) = set (dict_keys N) \<inter> set (dict_keys D)" by (rule inter)
    show "map_of ?R d = Some (round_float (truediv n m))"
      if "map_of N d = Some n" "map_of D d = Some m" for d n m
      using that by (rule vals)
  qed
qed


text \<open>
  An instance with numbers that binary floating point holds exactly: 3.0 / 2.0 is 1.5, and
  rounding 1.5 to four decimals leaves it.  The operations are instantiated by the exact
  quotient and the nearest multiple of 0.0001.
\<close>

theorem derive_numerator_dates_witness:
  "distinct (dict_keys [(''2024-03-08'', 3 :: rate)])
   \<and> list_all (\<lambda>d. \<exists>m. map_of [(''2024-03-08'', 2 :: rate), (''2024-03-12'', 4)] d = Some m \<and> m \<noteq> 0)
         (dict_keys [(''2024-03-08'', 3 :: rate)])
   \<and> (\<exists>R. derive (\<lambda>n m. n / m) (\<lambda>x. of_int (round (x * 10000)) / 10000)
              [(''2024-03-08'', 3)] [(''2024-03-08'', 2), (''2024-03-12'', 4)] = Inr R
         \<and> dict_keys R = [''2024-03-08'']
         \<and> map_of R ''2024-03-08'' = Some (3 / 2))"
proof -
  let ?N = "[(''2024-03-08'', 3 :: rate)]"
  let ?D = "[(''2024-03-08'', 2 :: rate), (''2024-03-12'', 4)]"
  let ?truediv = "\<lambda>n m :: rate. n / m"
  let ?round_float = "\<lambda>x :: rate. of_int (round (x * 10000)) / 10000 :: rate"
  have h1: "distinct (dict_keys ?N)" by (simp add: dict_keys_def)
  have h2: "\<forall>d \<in> set (dict_keys ?N). \<exists>m. map_of ?D d = Some m \<and> m \<noteq> 0"
    by (simp add: dict_keys_def)
  from derive_numerator_dates[OF h1 h2, where truediv = ?truediv and round_float = ?round_float]
  obtain R where
    R: "derive ?truediv ?round_float ?N ?D = Inr R" "dict_keys R = dict_keys ?N"
       "\<forall>d n m. map_of ?N d = Some n \<longrightarrow> map_of ?D d = Some m
          \<longrightarrow> map_of R d = Some (?round_float (?truediv n m))"
    by blast
  have "map_of ?N ''2024-03-08'' = Some 3" "map_of ?D ''2024-03-08'' = Some 2"
    by simp_all
  with R(3) have "map_of R ''2024-03-08'' = Some (?round_float (?truediv 3 2))"
    by blast
  moreover have "\<lfloor>30001 / 2 :: rat\<rfloor> = 15000" by (rule floor_unique) simp_all
  then have "?round_float (?truediv 3 2) = 3 / 2" by (simp add: round_def)
  ultimately have v: "map_of R ''2024-03-08'' = Some (3 / 2)" by simp
  have k: "dict_keys R = [''2024-03-08'']" using R(2) by (simp add: dict_keys_def)
  have l: "list_all (\<lambda>d. \<exists>m. map_of ?D d = Some m \<and> m \<noteq> 0) (dict_keys ?N)"
    using h2 by (simp add: list_all_iff)
  show ?thesis using h1 l R(1) k v by blast
qed

text \<open>
  The example of the claim: with \<open>N = {d1: 1.10, d2: 1.12}\<close> and
  \<open>D = {d1: 1.00, d3: 1.05}\<close> the lookup \<^verbatim>\<open>usd_rates[date]\<close> raises at \<open>d2\<close>; no mapping
  \<open>{d1: 1.10}\<close> is returned.
\<close>

theorem derive_intersection_counterexample:
  "derive (\<lambda>n m. n / m) (\<lambda>x. of_int (round (x * 10000)) / 10000)
       [(''2024-03-08'', 11 / 10), (''2024-03-11'', 112 / 100)]
       [(''2024-03-08'', 1), (''2024-03-12'', 105 / 100)]
     = Inl (KeyError ''2024-03-11'')"
  by (simp add: derive_def dict_keys_def dict_get_def)

text \<open>
  Claim C6, as the code has it.  When every date of the numerator is a date of the
  denominator, \<open>derive\<close> fails with \<^verbatim>\<open>ZeroDivisionError\<close> exactly when a shared date has the
  denominator zero, and it succeeds when no shared date has.
\<close>

theorem derive_zero_division:
  assumes "set (dict_keys N) \<subseteq> set (dict_keys D)"
  shows "(derive truediv round_float N D = Inl ZeroDivisionError
            \<longleftrightarrow> (\<exists>d \<in> set (dict_keys N) \<inter> set (dict_keys D). map_of D d = Some 0))
       \<and> ((\<forall>d \<in> set (dict_keys N) \<inter> set (dict_keys D). map_of D d \<noteq> Some 0)
            \<longrightarrow> (\<exists>R. derive truediv round_float N D = Inr R))"
proof -
  have "\<forall>d \<in> set (dict_keys N). d \<in> set (dict_keys N) \<and> d \<in> set (dict_keys D)"
    using assms by auto
  from derive_loop_zero[OF this, where acc = "[]" and truediv = truediv and round_float = round_float]
  have "if \<exists>d \<in> set (dict_keys N). map_of D d = Some 0 then derive truediv round_float N D = Inl ZeroDivisionError
        else \<exists>R. derive truediv round_float N D = Inr R"
    by (simp add: derive_def)
  moreover have "set (dict_keys N) \<inter> set (dict_keys D) = set (dict_keys N)"
    using assms by auto
  ultimately show ?thesis by (auto split: if_splits)
qed


theorem derive_zero_division_witness:
  "set (dict_keys [(''2024-03-08'', 11 / 10 :: rate)])
     \<subseteq> set (dict_keys [(''2024-03-08'', 0 :: rate), (''2024-03-12'', 105 / 100)])
   \<and> derive (\<lambda>n m. n / m) (\<lambda>x. of_int (round (x * 10000)) / 10000)
         [(''2024-03-08'', 11 / 10)] [(''2024-03-08'', 0), (''2024-03-12'', 105 / 100)]
       = Inl ZeroDivisionError"
proof -
  let ?N = "[(''2024-03-08'', 11 / 10 :: rate)]"
  let ?D = "[(''2024-03-08'', 0 :: rate), (''2024-03-12'', 105 / 100)]"
  have h: "set (dict_keys ?N) \<subseteq> set (dict_keys ?D)" by (simp add: dict_keys_def)
  have z: "\<exists>d \<in> set (dict_keys ?N) \<inter> set (dict_keys ?D). map_of ?D d = Some 0"
    by (simp add: dict_keys_def)
  from derive_zero_division[OF h, where truediv = "\<lambda>n m. n / m"
      and round_float = "\<lambda>x. of_int (round (x * 10000)) / 10000"] z have "derive (\<lambda>n m. n / m) (\<lambda>x. of_int (round (x * 10000)) / 10000)
         ?N ?D = Inl ZeroDivisionError" by blast
  then show ?thesis using h by blast
qed

text \<open>
  No shared date has a zero denominator here, and \<open>derive\<close> does not succeed: the date
  that only the numerator holds raises \<^verbatim>\<open>KeyError\<close>.
\<close>

theorem derive_succeeds_counterexample:
  "set (dict_keys [(''2024-03-08'', 11 / 10 :: rate), (''2024-03-11'', 112 / 100)])
     \<inter> set (dict_keys [(''2024-03-08'', 1 :: rate)]) = {''2024-03-08''}
   \<and> map_of [(''2024-03-08'', 1 :: rate)] ''2024-03-08'' = Some 1
   \<and> derive (\<lambda>n m. n / m) (\<lambda>x. of_int (round (x * 10000)) / 10000)
         [(''2024-03-08'', 11 / 10), (''2024-03-11'', 112 / 100)] [(''2024-03-08'', 1)]
       = Inl (KeyError ''2024-03-11'')"
  by (simp add: derive_def dict_keys_def dict_get_def)

section \<open>The status of a response\<close>

lemma raise_for_status_404: "status_code r = 404 \<Longrightarrow> raise_for_status r = Inl (HTTPError 404)"
  by (simp add: raise_for_status_def)

lemma check_response_never_classifies:
  "check_response r \<noteq> Inl (Exception data_not_found)
   \<and> check_response r \<noteq> Inl (Exception limit_exceeded)"
  by (simp add: check_response_def raise_for_status_def)

text \<open>
  Claim C7.  A response with status 404, and one with status 400 whose text holds
  \<^verbatim>\<open>Przekroczony limit\<close>, leave \<^verbatim>\<open>fetch_currency_data\<close> as the \<^verbatim>\<open>HTTPError\<close> of
  \<^verbatim>\<open>raise_for_status\<close>, the exception of every other 4xx or 5xx status: the two
  branches below that call, which raise the exceptions for missing data and for the span
  limit, are never reached.
\<close>

theorem fetch_404_and_400_raise_http_error:
  "fetch_currency_data (\<lambda>url. Response \<lparr>status_code = 404, resp_text = [], json = None\<rparr>)
       ''EUR'' ''2024-01-01'' ''2024-03-31''
     = ([HttpErrorOccurred ''EUR'' 404], Inl (HTTPError 404))
   \<and> fetch_currency_data
         (\<lambda>url. Response \<lparr>status_code = 400, resp_text = ''400 BadRequest - Przekroczony limit 93 dni'',
                          json = None\<rparr>)
       ''EUR'' ''2023-01-01'' ''2024-03-31''
     = ([HttpErrorOccurred ''EUR'' 400], Inl (HTTPError 400))"
  by (simp add: fetch_currency_data_def check_response_def raise_for_status_def)

section \<open>The assembled frame\<close>












section \<open>Converting and comparing dates\<close>

lemma series_to_datetime_Inr:
  "series_to_datetime f ss = Inr ps \<Longrightarrow> ps = map (parsed f) ss \<and> (\<forall>s \<in> set ss. \<exists>d. f s = Inr d)"
  by (induction ss arbitrary: ps) (auto simp: parsed_def split: sum.splits)

lemma series_to_datetime_ok:
  "\<forall>s \<in> set ss. \<exists>d. f s = Inr d \<Longrightarrow> series_to_datetime f ss = Inr (map (parsed f) ss)"
  by (induction ss) (auto simp: parsed_def)

lemma series_max_None: "series_max ps = None \<longleftrightarrow> (\<forall>p \<in> set ps. p = None)"
  by (induction ps rule: series_max.induct) (auto split: option.splits)

lemma series_max_ge: "Some d \<in> set ps \<Longrightarrow> \<exists>m. series_max ps = Some m \<and> d \<le> m"
  by (induction ps rule: series_max.induct) (auto split: option.splits simp: max.coboundedI2)

lemma series_max_mem: "series_max ps = Some m \<Longrightarrow> Some m \<in> set ps"
  by (induction ps arbitrary: m rule: series_max.induct) (auto split: option.splits simp: max_def)

lemma not_later_than_member: "p \<in> set ps \<Longrightarrow> \<not> later_than p (series_max ps)"
proof (cases p)
  case None
  then show ?thesis by simp
next
  case (Some d)
  assume "p \<in> set ps"
  with Some obtain m where "series_max ps = Some m" "d \<le> m" using series_max_ge by blast
  with Some show ?thesis by simp
qed

lemma not_later_than_grow:
  assumes "series_max ps = Some m" "set ps \<subseteq> set qs" "\<not> later_than p (Some m)"
  shows "\<not> later_than p (series_max qs)"
proof (cases p)
  case None
  then show ?thesis by simp
next
  case (Some d)
  have "Some m \<in> set qs" using assms(1,2) series_max_mem by blast
  then obtain m' where "series_max qs = Some m'" "m \<le> m'" using series_max_ge by blast
  then show ?thesis using Some assms(3) by auto
qed

lemma later_than_Some: "later_than p (Some M) \<longleftrightarrow> (\<exists>d. p = Some d \<and> M < d)"
  by (cases p) auto

lemma parsed_Inr: "f s = Inr p \<Longrightarrow> parsed f s = p"
  by (simp add: parsed_def)

section \<open>Dropping duplicates and aligning columns\<close>

lemma drop_dups_dates: "set (map Date (drop_dups seen rs)) = set (map Date rs) - set seen"
  by (induction rs arbitrary: seen) auto

lemma drop_dups_unseen: "r \<in> set (drop_dups seen rs) \<Longrightarrow> Date r \<notin> set seen"
  using drop_dups_dates[of seen rs] by auto

lemma drop_dups_distinct: "distinct (map Date (drop_dups seen rs))"
proof (induction rs arbitrary: seen)
  case Nil
  then show ?case by simp
next
  case (Cons r rs)
  have "Date r \<notin> Date ` set (drop_dups (Date r # seen) rs)"
  proof
    assume "Date r \<in> Date ` set (drop_dups (Date r # seen) rs)"
    then obtain x where x: "x \<in> set (drop_dups (Date r # seen) rs)" "Date x = Date r" by auto
    from drop_dups_unseen[OF x(1)] x(2) show False by simp
  qed
  then show ?case using Cons.IH by simp
qed

lemma drop_dups_id:
  "distinct (map Date rs) \<Longrightarrow> set (map Date rs) \<inter> set seen = {} \<Longrightarrow> drop_dups seen rs = rs"
  by (induction rs arbitrary: seen) auto

lemma drop_dups_seen_cong: "set seen = set seen' \<Longrightarrow> drop_dups seen rs = drop_dups seen' rs"
proof (induction rs arbitrary: seen seen')
  case Nil
  then show ?case by simp
next
  case (Cons r rs)
  have mem: "Date r \<in> set seen \<longleftrightarrow> Date r \<in> set seen'" using Cons.prems by simp
  have "set (Date r # seen) = set (Date r # seen')" using Cons.prems by simp
  then have "drop_dups (Date r # seen) rs = drop_dups (Date r # seen') rs" by (rule Cons.IH)
  moreover have "drop_dups seen rs = drop_dups seen' rs" using Cons.prems by (rule Cons.IH)
  ultimately show ?case using mem by simp
qed

lemma drop_dups_append:
  "distinct (map Date xs) \<Longrightarrow> set (map Date xs) \<inter> set seen = {} \<Longrightarrow>
   drop_dups seen (xs @ ys) = xs @ drop_dups (map Date xs @ seen) ys"
proof (induction xs arbitrary: seen)
  case Nil
  then show ?case by simp
next
  case (Cons x xs)
  have "drop_dups (Date x # seen) (xs @ ys) = xs @ drop_dups (map Date xs @ Date x # seen) ys"
    using Cons.prems by (intro Cons.IH) auto
  moreover have "drop_dups (map Date xs @ Date x # seen) ys = drop_dups (map Date (x # xs) @ seen) ys"
    by (rule drop_dups_seen_cong) auto
  ultimately show ?case using Cons.prems by simp
qed

lemma drop_dups_subset: "set (drop_dups seen rs) \<subseteq> set rs"
  by (induction rs arbitrary: seen) auto

lemma Date_reindex [simp]: "Date (reindex a b r) = Date r"
  by (simp add: reindex_def)

lemma cell_at_reindex: "c \<in> set b \<Longrightarrow> cell_at b (reindex a b r) c = cell_at a r c"
  by (simp add: cell_at_def reindex_def map_of_zip_map)

lemma reindex_same:
  assumes "distinct a" "length (cells r) = length a"
  shows "reindex a a r = r"
proof -
  have "map (cell_at a r) a = cells r"
  proof (rule nth_equalityI)
    show "length (map (cell_at a r) a) = length (cells r)" using assms by simp
    fix i assume "i < length (map (cell_at a r) a)"
    then have i: "i < length a" by simp
    then have "map_of (zip a (cells r)) (a ! i) = Some (cells r ! i)"
      using assms by (simp add: map_of_zip_nth)
    then show "map (cell_at a r) a ! i = cells r ! i" using i by (simp add: cell_at_def)
  qed
  then show ?thesis by (simp add: reindex_def)
qed

lemma reindex_reindex: "reindex b b (reindex a b r) = reindex a b r"
proof -
  have "map (cell_at b (reindex a b r)) b = map (cell_at a r) b"
    by (rule map_cong) (simp_all add: cell_at_reindex)
  then show ?thesis by (simp add: reindex_def)
qed

lemma well_formed_reindex:
  "well_formed df \<Longrightarrow> map (reindex (columns df) (columns df)) (rows df) = rows df"
  by (auto simp: well_formed_def list_all_iff reindex_same intro: map_idI)

section \<open>The merge of \<^verbatim>\<open>save_to_csv\<close>\<close>

lemma files_differ: "ALL_CURRENCY_FILE \<noteq> SELECTED_CURRENCY_FILE"
  by (simp add: ALL_CURRENCY_FILE_def SELECTED_CURRENCY_FILE_def)

lemma merge_history_Csv:
  assumes "series_to_datetime f (map Date (rows E)) = Inr pe"
    and "series_to_datetime f (map Date (rows T)) = Inr pt"
  shows "merge_history f T fn (Some (Csv E)) = Inr (merged f E T, Updated fn)"
proof -
  have pe: "pe = map (\<lambda>r. parsed f (Date r)) (rows E)"
    using series_to_datetime_Inr[OF assms(1)] by (simp add: comp_def)
  have pt: "pt = map (parsed f) (map Date (rows T))"
    using series_to_datetime_Inr[OF assms(2)] by simp
  have "map fst (filter snd (zip xs (map k xs))) = filter k xs" for k :: "row \<Rightarrow> bool" and xs
    by (induction xs) auto
  from this[of "rows T" "\<lambda>r. later_than (parsed f (Date r)) (series_max pe)"]
  have "select_rows T (map (\<lambda>d. later_than d (series_max pe)) pt) = T\<lparr>rows := new_entries f E T\<rparr>"
    by (simp add: select_rows_def pt new_entries_def pe comp_def)
  then show ?thesis
    using assms by (simp add: merge_history_def read_csv_def merged_def)
qed

lemma merge_history_raises_existing:
  "series_to_datetime f (map Date (rows E)) = Inl e \<Longrightarrow> merge_history f T fn (Some (Csv E)) = Inl e"
  by (simp add: merge_history_def read_csv_def)

lemma merge_history_raises_incoming:
  "series_to_datetime f (map Date (rows E)) = Inr pe \<Longrightarrow>
   series_to_datetime f (map Date (rows T)) = Inl e \<Longrightarrow>
   merge_history f T fn (Some (Csv E)) = Inl e"
  by (simp add: merge_history_def read_csv_def)

lemma merge_raised:
  "merge_history f T ALL_CURRENCY_FILE (fs ALL_CURRENCY_FILE) = Inl e \<Longrightarrow> merge f fs T = fs"
  by (simp add: merge_def save_to_csv_def files_differ)

lemma merge_written:
  "merge_history f T ALL_CURRENCY_FILE (fs ALL_CURRENCY_FILE) = Inr (R, line) \<Longrightarrow>
   merge f fs T = fs(ALL_CURRENCY_FILE \<mapsto> Csv R)"
  by (simp add: merge_def save_to_csv_def files_differ)

lemma merge_Csv_cases:
  assumes "fs ALL_CURRENCY_FILE = Some (Csv E)"
  shows "merge f fs T = fs
       \<or> (\<exists>pe pt. series_to_datetime f (map Date (rows E)) = Inr pe
              \<and> series_to_datetime f (map Date (rows T)) = Inr pt
              \<and> merge f fs T = fs(ALL_CURRENCY_FILE \<mapsto> Csv (merged f E T)))"
proof (cases "series_to_datetime f (map Date (rows E))")
  case (Inl e)
  then show ?thesis using assms merge_raised[of f T fs e] merge_history_raises_existing[of f E e T]
    by simp
next
  case pe: (Inr pe)
  show ?thesis
  proof (cases "series_to_datetime f (map Date (rows T))")
    case (Inl e)
    then show ?thesis
      using assms pe merge_raised[of f T fs e] merge_history_raises_incoming[of f E pe T e]
      by simp
  next
    case (Inr pt)
    then show ?thesis
      using assms pe merge_written[of f T fs "merged f E T"] merge_history_Csv[of f E pe T pt]
      by simp
  qed
qed

lemma columns_merged:
  "columns (merged f E T) = columns E @ filter (\<lambda>c. c \<notin> set (columns E)) (columns T)"
  by (simp add: merged_def drop_duplicates_def concat_frames_def Let_def)

lemma rows_merged:
  "rows (merged f E T) =
     drop_dups [] (map (reindex (columns E) (columns (merged f E T))) (rows E)
                   @ map (reindex (columns T) (columns (merged f E T))) (new_entries f E T))"
  by (simp add: merged_def drop_duplicates_def concat_frames_def Let_def)

lemma new_entries_later:
  assumes "series_to_datetime f (map Date (rows E)) = Inr pe" "series_max pe = Some M"
    and "series_to_datetime f (map Date (rows T)) = Inr pt"
  shows "new_entries f E T = filter (\<lambda>r. \<exists>d. f (Date r) = Inr (Some d) \<and> M < d) (rows T)"
proof -
  have pe: "pe = map (\<lambda>r. parsed f (Date r)) (rows E)"
    using series_to_datetime_Inr[OF assms(1)] by (simp add: comp_def)
  have ok: "\<forall>r \<in> set (rows T). \<exists>p. f (Date r) = Inr p"
    using series_to_datetime_Inr[OF assms(3)] by simp
  have "later_than (parsed f (Date r)) (Some M) \<longleftrightarrow> (\<exists>d. f (Date r) = Inr (Some d) \<and> M < d)"
    if "r \<in> set (rows T)" for r
  proof -
    from ok that obtain p where p: "f (Date r) = Inr p" by blast
    then show ?thesis by (simp add: parsed_Inr later_than_Some)
  qed
  then show ?thesis
    using assms(2) unfolding new_entries_def pe[symmetric] by (auto intro: filter_cong)
qed

lemma new_entries_fresh:
  assumes "r \<in> set (new_entries f E T)" "e \<in> set (rows E)"
  shows "Date e \<noteq> Date r"
proof
  assume eq: "Date e = Date r"
  let ?ps = "map (\<lambda>r. parsed f (Date r)) (rows E)"
  have "parsed f (Date e) \<in> set ?ps" using assms(2) by auto
  then have "\<not> later_than (parsed f (Date e)) (series_max ?ps)" by (rule not_later_than_member)
  moreover have "later_than (parsed f (Date r)) (series_max ?ps)"
    using assms(1) by (simp add: new_entries_def)
  ultimately show False using eq by simp
qed

lemma new_entries_subset: "set (new_entries f E T) \<subseteq> set (rows T)"
  by (auto simp: new_entries_def)

lemma merged_same_schema:
  assumes dE: "distinct (map Date (rows E))" and dT: "distinct (map Date (rows T))"
    and wE: "well_formed E" and wT: "well_formed T" and cols: "columns T = columns E"
  shows "merged f E T = E\<lparr>rows := rows E @ new_entries f E T\<rparr>"
proof -
  let ?F = "new_entries f E T"
  have c: "columns (merged f E T) = columns E"
    by (simp add: columns_merged cols)
  have "\<forall>r \<in> set ?F. reindex (columns E) (columns E) r = r"
    using wT cols new_entries_subset[of f E T]
    by (auto simp: well_formed_def list_all_iff reindex_same)
  then have rF: "map (reindex (columns E) (columns E)) ?F = ?F" by (simp add: map_idI)
  have "distinct (map Date ?F)"
    using dT by (simp add: new_entries_def distinct_map_filter)
  moreover have "set (map Date (rows E)) \<inter> set (map Date ?F) = {}"
    using new_entries_fresh[of _ f E T] by fastforce
  ultimately have "distinct (map Date (rows E @ ?F))" using dE by simp
  then have "drop_dups [] (rows E @ ?F) = rows E @ ?F" by (intro drop_dups_id) simp_all
  then have r: "rows (merged f E T) = rows E @ ?F"
    by (simp add: rows_merged c cols rF well_formed_reindex[OF wE])
  show ?thesis by (rule DataFrame.equality) (simp_all add: c r)
qed

lemma merged_rows_prefix:
  assumes "distinct (map Date (rows E))"
  shows "rows (merged f E T) =
           map (reindex (columns E) (columns (merged f E T))) (rows E)
           @ drop_dups (map Date (rows E))
               (map (reindex (columns T) (columns (merged f E T))) (new_entries f E T))"
proof -
  let ?E' = "map (reindex (columns E) (columns (merged f E T))) (rows E)"
  have d: "map Date ?E' = map Date (rows E)" by (simp add: comp_def)
  have "drop_dups [] (?E' @ ys) = ?E' @ drop_dups (map Date ?E' @ []) ys" for ys
    by (rule drop_dups_append) (simp_all only: d assms, simp)
  then show ?thesis by (simp only: rows_merged d append_Nil2)
qed





lemma merged_dates:
  "set (map Date (rows (merged f E T))) = set (map Date (rows E)) \<union> set (map Date (new_entries f E T))"
  by (simp only: rows_merged drop_dups_dates) (auto simp: comp_def)

lemma merged_distinct: "distinct (map Date (rows (merged f E T)))"
  by (simp only: rows_merged drop_dups_distinct)

lemma merged_rows_reindexed:
  assumes "r \<in> set (rows (merged f E T))"
  shows "reindex (columns (merged f E T)) (columns (merged f E T)) r = r"
proof -
  let ?cs = "columns (merged f E T)"
  have "r \<in> set (map (reindex (columns E) ?cs) (rows E) @ map (reindex (columns T) ?cs) (new_entries f E T))"
    using assms drop_dups_subset by (simp only: rows_merged) blast
  then obtain a r0 where "r = reindex a ?cs r0" by auto
  then show ?thesis by (simp add: reindex_reindex)
qed

lemma new_entries_after_merge:
  "new_entries f (merged f E T) T = []"
proof -
  let ?key = "\<lambda>r. parsed f (Date r)"
  let ?R = "merged f E T"
  let ?KE = "map ?key (rows E)"
  let ?KR = "map ?key (rows ?R)"
  have setKR: "set ?KR = parsed f ` set (map Date (rows ?R))" by (simp add: image_comp comp_def)
  have setKE: "set ?KE = parsed f ` set (map Date (rows E))" by (simp add: image_comp comp_def)
  have "\<not> later_than (?key t) (series_max ?KR)" if t: "t \<in> set (rows T)" for t
  proof (cases "later_than (?key t) (series_max ?KE)")
    case True
    then have "t \<in> set (new_entries f E T)" using t by (simp add: new_entries_def)
    then have "Date t \<in> set (map Date (rows ?R))" by (simp only: merged_dates) simp
    then have "?key t \<in> set ?KR" unfolding setKR by blast
    then show ?thesis by (rule not_later_than_member)
  next
    case False
    show ?thesis
    proof (cases "series_max ?KE")
      case None
      then have "new_entries f E T = []" by (simp add: new_entries_def)
      then have "set ?KR = set ?KE" unfolding setKR setKE by (simp only: merged_dates) simp
      then have "series_max ?KR = None" using None by (simp only: series_max_None)
      then show ?thesis by simp
    next
      case (Some m)
      have "set ?KE \<subseteq> set ?KR" unfolding setKR setKE by (simp only: merged_dates) blast
      with Some show ?thesis using False by (intro not_later_than_grow[of ?KE m]) simp_all
    qed
  qed
  then show ?thesis by (simp add: new_entries_def filter_empty_conv)
qed

lemma merged_again: "merged f (merged f E T) T = merged f E T"
proof -
  let ?R = "merged f E T"
  have sub: "set (columns T) \<subseteq> set (columns ?R)" by (auto simp: columns_merged)
  then have "filter (\<lambda>c. c \<notin> set (columns ?R)) (columns T) = []"
    by (auto simp: filter_empty_conv)
  then have c: "columns (merged f ?R T) = columns ?R" by (simp add: columns_merged)
  have "map (reindex (columns ?R) (columns ?R)) (rows ?R) = rows ?R"
    by (rule map_idI) (rule merged_rows_reindexed)
  moreover have "drop_dups [] (rows ?R) = rows ?R"
    by (rule drop_dups_id) (simp_all add: merged_distinct)
  ultimately have r: "rows (merged f ?R T) = rows ?R"
    by (simp add: rows_merged[of f ?R T] c new_entries_after_merge)
  show ?thesis by (rule DataFrame.equality) (simp_all add: c r)
qed


lemma iso_examples:
  "iso_datetime ''2024-03-08'' = Inr (Some (2024, 3, 8))"
  "iso_datetime ''2024-03-09'' = Inr (Some (2024, 3, 9))"
  "iso_datetime ''2024-03-10'' = Inr (Some (2024, 3, 10))"
  "iso_datetime ''2024-03-11'' = Inr (Some (2024, 3, 11))"
  "iso_datetime ''2024-03-12'' = Inr (Some (2024, 3, 12))"
  by (simp_all add: iso_datetime_def digit_of_def days_in_month_def leap_year_def)

text \<open>
  Claim C1.  Let the stored history have the maximum DateKey \<open>M\<close>, let the dates of both
  frames convert, let each frame hold a \<^verbatim>\<open>Date\<close> once (one row per DateKey) and let both
  have the same, well-formed columns.  Then the file written is the stored rows followed
  by exactly the incoming rows whose DateKey is greater than \<open>M\<close>, in their order; the
  incoming rows with a DateKey up to \<open>M\<close> are dropped.
\<close>

theorem merge_appends_newer_rows:
  assumes "fs ALL_CURRENCY_FILE = Some (Csv E)"
    and "series_to_datetime f (map Date (rows E)) = Inr pe"
    and "series_max pe = Some M"
    and "series_to_datetime f (map Date (rows T)) = Inr pt"
    and "distinct (map Date (rows E))" and "distinct (map Date (rows T))"
    and "well_formed E" and "well_formed T" and "columns T = columns E"
  shows "merge f fs T ALL_CURRENCY_FILE
           = Some (Csv (E\<lparr>rows := rows E @ filter (\<lambda>r. \<exists>d. f (Date r) = Inr (Some d) \<and> M < d) (rows T)\<rparr>))"
proof -
  have "merge_history f T ALL_CURRENCY_FILE (fs ALL_CURRENCY_FILE)
          = Inr (merged f E T, Updated ALL_CURRENCY_FILE)"
    using assms(1) merge_history_Csv[OF assms(2,4)] by simp
  then have "merge f fs T = fs(ALL_CURRENCY_FILE \<mapsto> Csv (merged f E T))"
    by (rule merge_written)
  moreover have "merged f E T = E\<lparr>rows := rows E @ new_entries f E T\<rparr>"
    using assms(5-9) by (rule merged_same_schema)
  moreover note new_entries_later[OF assms(2,3,4)]
  ultimately show ?thesis by simp
qed

text \<open>
  The example of the claim: 2024-03-10 stays as it is, the incoming row for 2024-03-09 is
  dropped, the row for 2024-03-11 is appended.
\<close>

theorem merge_appends_newer_rows_witness:
  "series_max [Some (2024, 3, 8), Some (2024, 3, 10 :: nat)] = Some (2024 :: nat, 3 :: nat, 10)
   \<and> merge iso_datetime [ALL_CURRENCY_FILE \<mapsto> Csv history_example] incoming_example ALL_CURRENCY_FILE
       = Some (Csv \<lparr>columns = [''EUR/PLN''],
                    rows = [\<lparr>Date = ''2024-03-08'', cells = [Some (43 / 10)]\<rparr>,
                            \<lparr>Date = ''2024-03-10'', cells = [Some (44 / 10)]\<rparr>,
                            \<lparr>Date = ''2024-03-11'', cells = [Some (45 / 10)]\<rparr>]\<rparr>)"
proof -
  let ?fs = "[ALL_CURRENCY_FILE \<mapsto> Csv history_example]"
  have h1: "?fs ALL_CURRENCY_FILE = Some (Csv history_example)" by simp
  have h2: "series_to_datetime iso_datetime (map Date (rows history_example))
              = Inr [Some (2024, 3, 8), Some (2024, 3, 10)]"
    by (simp add: history_example_def iso_examples)
  have h3: "series_max [Some (2024, 3, 8), Some (2024, 3, 10 :: nat)] = Some (2024 :: nat, 3 :: nat, 10)"
    by (simp add: max_def)
  have h4: "series_to_datetime iso_datetime (map Date (rows incoming_example))
              = Inr [Some (2024, 3, 9), Some (2024, 3, 11)]"
    by (simp add: incoming_example_def iso_examples)
  have h5: "distinct (map Date (rows history_example))" by (simp add: history_example_def)
  have h6: "distinct (map Date (rows incoming_example))" by (simp add: incoming_example_def)
  have h7: "well_formed history_example" by (simp add: well_formed_def history_example_def)
  have h8: "well_formed incoming_example" by (simp add: well_formed_def incoming_example_def)
  have h9: "columns incoming_example = columns history_example"
    by (simp add: incoming_example_def history_example_def)
  from merge_appends_newer_rows[where fs = "[ALL_CURRENCY_FILE \<mapsto> Csv history_example]"
         and E = history_example and T = incoming_example, OF h1 h2 h3 h4 h5 h6 h7 h8 h9]
  have "merge iso_datetime ?fs incoming_example ALL_CURRENCY_FILE
          = Some (Csv \<lparr>columns = [''EUR/PLN''],
                    rows = [\<lparr>Date = ''2024-03-08'', cells = [Some (43 / 10)]\<rparr>,
                            \<lparr>Date = ''2024-03-10'', cells = [Some (44 / 10)]\<rparr>,
                            \<lparr>Date = ''2024-03-11'', cells = [Some (45 / 10)]\<rparr>]\<rparr>)"
    by (simp add: incoming_example_def history_example_def iso_examples)
  with h3 show ?thesis by blast
qed

text \<open>
  Claim C2.  Merging the same incoming table a second time leaves the file as the first
  merge left it, whatever the stored file and the table are.
\<close>

theorem merge_idempotent:
  assumes "fs ALL_CURRENCY_FILE = Some h"
  shows "merge f (merge f fs T) T = merge f fs T"
proof (cases h)
  case Unreadable
  then have "merge_history f T ALL_CURRENCY_FILE (fs ALL_CURRENCY_FILE) = Inl IOError"
    using assms by (simp add: merge_history_def read_csv_def)
  then have "merge f fs T = fs" by (rule merge_raised)
  then show ?thesis by simp
next
  case (Csv E)
  with assms have E: "fs ALL_CURRENCY_FILE = Some (Csv E)" by simp
  from merge_Csv_cases[where fs = fs and E = E and f = f and T = T] E
  consider (unchanged) "merge f fs T = fs"
    | (written) pe pt where "series_to_datetime f (map Date (rows E)) = Inr pe"
        "series_to_datetime f (map Date (rows T)) = Inr pt"
        "merge f fs T = fs(ALL_CURRENCY_FILE \<mapsto> Csv (merged f E T))"
    by blast
  then show ?thesis
  proof cases
    case unchanged
    then show ?thesis by simp
  next
    case written
    let ?R = "merged f E T"
    let ?fs = "fs(ALL_CURRENCY_FILE \<mapsto> Csv ?R)"
    have okE: "\<forall>s \<in> set (map Date (rows E)). \<exists>p. f s = Inr p"
      using series_to_datetime_Inr[OF written(1)] by simp
    have okT: "\<forall>s \<in> set (map Date (rows T)). \<exists>p. f s = Inr p"
      using series_to_datetime_Inr[OF written(2)] by simp
    have "\<forall>s \<in> set (map Date (rows ?R)). \<exists>p. f s = Inr p"
      using okE okT new_entries_subset[of f E T] by (simp only: merged_dates) auto
    then have pR: "series_to_datetime f (map Date (rows ?R)) = Inr (map (parsed f) (map Date (rows ?R)))"
      by (rule series_to_datetime_ok)
    have "merge_history f T ALL_CURRENCY_FILE (?fs ALL_CURRENCY_FILE)
            = Inr (merged f ?R T, Updated ALL_CURRENCY_FILE)"
      using merge_history_Csv[OF pR written(2)] by simp
    then have "merge f ?fs T = ?fs(ALL_CURRENCY_FILE \<mapsto> Csv (merged f ?R T))"
      by (rule merge_written)
    then show ?thesis by (simp add: written(3) merged_again)
  qed
qed

theorem merge_idempotent_witness:
  "[ALL_CURRENCY_FILE \<mapsto> Csv history_example] ALL_CURRENCY_FILE = Some (Csv history_example)
   \<and> merge iso_datetime (merge iso_datetime [ALL_CURRENCY_FILE \<mapsto> Csv history_example] incoming_example)
         incoming_example
       = merge iso_datetime [ALL_CURRENCY_FILE \<mapsto> Csv history_example] incoming_example"
proof -
  have h: "[ALL_CURRENCY_FILE \<mapsto> Csv history_example] ALL_CURRENCY_FILE = Some (Csv history_example)"
    by simp
  from merge_idempotent[where fs = "[ALL_CURRENCY_FILE \<mapsto> Csv history_example]"
      and h = "Csv history_example" and f = iso_datetime and T = incoming_example, OF h] h
  show ?thesis by blast
qed

text \<open>
  Claim C3.  When the stored history holds each \<^verbatim>\<open>Date\<close> once, the file after the merge
  has at least as many rows, and every stored row is still at its place with its date
  and, in every column of the stored history, its value, whatever the incoming table
  holds for that date.  When the incoming table brings no new column, the stored rows are
  literally the first rows of the result.
\<close>

theorem merge_keeps_existing_rows:
  assumes "fs ALL_CURRENCY_FILE = Some (Csv E)" and "distinct (map Date (rows E))"
  shows "\<exists>R. merge f fs T ALL_CURRENCY_FILE = Some (Csv R)
           \<and> length (rows E) \<le> length (rows R)
           \<and> (\<forall>i < length (rows E).
                 Date (rows R ! i) = Date (rows E ! i)
                 \<and> (\<forall>c \<in> set (columns E).
                       cell_at (columns R) (rows R ! i) c = cell_at (columns E) (rows E ! i) c))
           \<and> (well_formed E \<and> set (columns T) \<subseteq> set (columns E)
                 \<longrightarrow> take (length (rows E)) (rows R) = rows E)"
proof -
  from merge_Csv_cases[where fs = fs and E = E and f = f and T = T] assms(1)
  consider (unchanged) "merge f fs T = fs"
    | (written) "merge f fs T = fs(ALL_CURRENCY_FILE \<mapsto> Csv (merged f E T))"
    by blast
  then show ?thesis
  proof cases
    case unchanged
    then have "merge f fs T ALL_CURRENCY_FILE = Some (Csv E)" using assms(1) by simp
    then show ?thesis by auto
  next
    case written
    let ?R = "merged f E T"
    let ?cs = "columns ?R"
    let ?E' = "map (reindex (columns E) ?cs) (rows E)"
    obtain tl where rows: "rows ?R = ?E' @ tl"
      using merged_rows_prefix[OF assms(2), of f T] by blast
    have sub: "set (columns E) \<subseteq> set ?cs" by (simp add: columns_merged)
    have len: "length (rows E) \<le> length (rows ?R)" by (simp add: rows)
    have at: "rows ?R ! i = reindex (columns E) ?cs (rows E ! i)" if "i < length (rows E)" for i
      using that by (simp add: rows nth_append)
    have cellwise: "\<forall>i < length (rows E).
                 Date (rows ?R ! i) = Date (rows E ! i)
                 \<and> (\<forall>c \<in> set (columns E).
                       cell_at ?cs (rows ?R ! i) c = cell_at (columns E) (rows E ! i) c)"
      using sub by (auto simp: at cell_at_reindex)
    have same: "take (length (rows E)) (rows ?R) = rows E"
      if "well_formed E" "set (columns T) \<subseteq> set (columns E)"
    proof -
      have "filter (\<lambda>c. c \<notin> set (columns E)) (columns T) = []"
        using that(2) by (auto simp: filter_empty_conv)
      then have "?cs = columns E" by (simp add: columns_merged)
      then have "?E' = rows E" using well_formed_reindex[OF that(1)] by simp
      then show ?thesis by (simp add: rows)
    qed
    have "merge f fs T ALL_CURRENCY_FILE = Some (Csv ?R)" using written by simp
    then show ?thesis using len cellwise same by blast
  qed
qed

text \<open>
  The incoming table holds 9.9 for 2024-03-10, where the history holds 4.4: the stored
  rows come out unchanged.
\<close>

theorem merge_keeps_existing_rows_witness:
  "distinct (map Date (rows history_example))
   \<and> (\<exists>R. merge iso_datetime [ALL_CURRENCY_FILE \<mapsto> Csv history_example] conflicting_example
             ALL_CURRENCY_FILE = Some (Csv R)
          \<and> length (rows history_example) \<le> length (rows R)
          \<and> take (length (rows history_example)) (rows R) = rows history_example)"
proof -
  have h1: "[ALL_CURRENCY_FILE \<mapsto> Csv history_example] ALL_CURRENCY_FILE = Some (Csv history_example)"
    by simp
  have h2: "distinct (map Date (rows history_example))" by (simp add: history_example_def)
  have h3: "well_formed history_example \<and> set (columns conflicting_example) \<subseteq> set (columns history_example)"
    by (simp add: well_formed_def history_example_def conflicting_example_def)
  from merge_keeps_existing_rows[where fs = "[ALL_CURRENCY_FILE \<mapsto> Csv history_example]"
      and E = history_example and f = iso_datetime and T = conflicting_example, OF h1 h2] h3
  have "\<exists>R. merge iso_datetime [ALL_CURRENCY_FILE \<mapsto> Csv history_example] conflicting_example
             ALL_CURRENCY_FILE = Some (Csv R)
          \<and> length (rows history_example) \<le> length (rows R)
          \<and> take (length (rows history_example)) (rows R) = rows history_example"
    by blast
  with h2 show ?thesis by blast
qed




text \<open>
  Claim C8, as the code has it.  Every failure of the merge happens before the file is
  written (reading the stored file, converting a date): the stored files are left as they
  were, and the \<^verbatim>\<open>except\<close> clause prints the failure and lets \<^verbatim>\<open>save_to_csv\<close> return
  normally; nothing is raised to the caller.
\<close>

theorem save_to_csv_failure_is_printed:
  assumes "merge_history f T ALL_CURRENCY_FILE (fs ALL_CURRENCY_FILE) = Inl e"
  shows "save_to_csv f T ALL_CURRENCY_FILE fs = (Inr (), [SaveError ALL_CURRENCY_FILE e], fs)"
  using assms by (simp add: save_to_csv_def files_differ)

theorem save_to_csv_failure_is_printed_witness:
  "merge_history iso_datetime incoming_example ALL_CURRENCY_FILE
       ([ALL_CURRENCY_FILE \<mapsto> Unreadable] ALL_CURRENCY_FILE) = Inl IOError
   \<and> save_to_csv iso_datetime incoming_example ALL_CURRENCY_FILE [ALL_CURRENCY_FILE \<mapsto> Unreadable]
       = (Inr (), [SaveError ALL_CURRENCY_FILE IOError], [ALL_CURRENCY_FILE \<mapsto> Unreadable])"
proof -
  have h: "merge_history iso_datetime incoming_example ALL_CURRENCY_FILE
             ([ALL_CURRENCY_FILE \<mapsto> Unreadable] ALL_CURRENCY_FILE) = Inl IOError"
    by (simp add: merge_history_def read_csv_def)
  from save_to_csv_failure_is_printed[where fs = "[ALL_CURRENCY_FILE \<mapsto> Unreadable]", OF h] h
  show ?thesis by blast
qed

text \<open>
  The claim as stated fails: here the merge fails on a date that does not convert, and
  \<^verbatim>\<open>save_to_csv\<close> returns normally.
\<close>

theorem save_to_csv_swallows_counterexample:
  "merge_history iso_datetime incoming_example ALL_CURRENCY_FILE
       ([ALL_CURRENCY_FILE \<mapsto> Csv corrupt_example] ALL_CURRENCY_FILE)
     = Inl (ValueError (unparseable ''not a date''))
   \<and> fst (save_to_csv iso_datetime incoming_example ALL_CURRENCY_FILE
            [ALL_CURRENCY_FILE \<mapsto> Csv corrupt_example]) = Inr ()"
  by (simp add: merge_history_def read_csv_def corrupt_example_def iso_datetime_def
      save_to_csv_def files_differ)

end
